theory Spec2Isabelle
  imports Main
begin

section \<open>Rules engine (\<^verbatim>\<open>src/api/game_logic.py\<close>)\<close>

subsection \<open>Data model\<close>

text \<open>
  \<^verbatim>\<open>class Player(str, Enum)\<close> and \<^verbatim>\<open>class GameStatus(str, Enum)\<close> are closed
  enumerations. A cell is \<^verbatim>\<open>None\<close> or a player's mark (the response schema types the
  board as \<^verbatim>\<open>List[List[Optional[Player]]]\<close>), and a board is a Python list of lists
  of cells, whose shape the code never checks.
\<close>

datatype Player = Player_X | Player_O

datatype GameStatus = IN_PROGRESS | DRAW | WINNER_X | WINNER_O

type_synonym cell = "Player option"

type_synonym board = "cell list list"

text \<open>
  Exceptions raised on the modelled paths: by the interpreter, by \<^verbatim>\<open>update_game\<close>
  itself (\<^verbatim>\<open>ValueError\<close>), and by the database layer when it binds a parameter
  (\<^verbatim>\<open>StatementError\<close>, \<^verbatim>\<open>OverflowError\<close>).
\<close>

datatype py_error = IndexError | TypeError | ValueError | StatementError | OverflowError

text \<open>
  The three error messages \<^verbatim>\<open>play_move\<close> returns: \<^verbatim>\<open>"Move out of bounds."\<close>,
  \<^verbatim>\<open>"Cell already taken."\<close> and \<^verbatim>\<open>f"It's {expected_player}'s turn."\<close>; the last
  one carries the expected player.
\<close>

datatype move_error = OutOfBounds | CellOccupied | WrongTurn Player

text \<open>
  \<^verbatim>\<open>board[i][j]\<close> for non-negative \<open>i\<close>, \<open>j\<close>: Python raises \<^verbatim>\<open>IndexError\<close>
  when an index is past the end of the list.
\<close>

definition get_cell :: "board \<Rightarrow> nat \<Rightarrow> nat \<Rightarrow> py_error + cell" where
  "get_cell b i j =
     (if i < length b
      then (if j < length (b ! i) then Inr (b ! i ! j) else Inl IndexError)
      else Inl IndexError)"

subsection \<open>The functions\<close>

definition initial_board :: board where
  "initial_board = map (\<lambda>_. map (\<lambda>_. None) [0..<3]) [0..<3]"

definition x_count :: "board \<Rightarrow> nat" where
  "x_count b = length (filter (\<lambda>c. c = Some Player_X) (concat b))"

definition o_count :: "board \<Rightarrow> nat" where
  "o_count b = length (filter (\<lambda>c. c = Some Player_O) (concat b))"

definition get_next_player :: "board \<Rightarrow> Player" where
  "get_next_player b = (if x_count b > o_count b then Player_O else Player_X)"

text \<open>The three generators of index triples that \<^verbatim>\<open>check_winner\<close> builds.\<close>

definition winner_lines :: "(nat \<times> nat) list list" where
  "winner_lines = map (\<lambda>i. map (\<lambda>j. (i, j)) [0..<3]) [0..<3]"

definition winner_cols :: "(nat \<times> nat) list list" where
  "winner_cols = map (\<lambda>i. map (\<lambda>j. (j, i)) [0..<3]) [0..<3]"

definition winner_diags :: "(nat \<times> nat) list list" where
  "winner_diags = [map (\<lambda>i. (i, i)) [0..<3], map (\<lambda>i. (i, 2 - i)) [0..<3]]"

text \<open>\<^verbatim>\<open>[board[i][j] for i, j in line]\<close>: the first failing read raises.\<close>

fun line_marks :: "board \<Rightarrow> (nat \<times> nat) list \<Rightarrow> py_error + cell list" where
  "line_marks b [] = Inr []"
| "line_marks b ((i, j) # ps) =
     (case get_cell b i j of
        Inl e \<Rightarrow> Inl e
      | Inr c \<Rightarrow> (case line_marks b ps of Inl e \<Rightarrow> Inl e | Inr cs \<Rightarrow> Inr (c # cs)))"

text \<open>
  The body of the \<^verbatim>\<open>for line_indices in ...\<close> loop. \<^verbatim>\<open>line_marks[0]\<close> is truthy
  exactly when it is a mark; a line that does not match falls through to the next one.
\<close>

fun scan_lines :: "board \<Rightarrow> (nat \<times> nat) list list \<Rightarrow> py_error + Player option" where
  "scan_lines b [] = Inr None"
| "scan_lines b (l # ls) =
     (case line_marks b l of
        Inl e \<Rightarrow> Inl e
      | Inr [] \<Rightarrow> Inl IndexError
      | Inr (m # ms) \<Rightarrow>
          (if m \<noteq> None \<and> list_all (\<lambda>c. c = m) (m # ms)
           then (if m = Some Player_X then Inr (Some Player_X)
                 else if m = Some Player_O then Inr (Some Player_O)
                 else scan_lines b ls)
           else scan_lines b ls))"

definition check_winner :: "board \<Rightarrow> py_error + Player option" where
  "check_winner b = scan_lines b (winner_lines @ winner_cols @ winner_diags)"

definition is_draw :: "board \<Rightarrow> py_error + bool" where
  "is_draw b =
     (if list_ex (\<lambda>c. c = None) (concat b) then Inr False
      else (case check_winner b of Inl e \<Rightarrow> Inl e | Inr w \<Rightarrow> Inr (w = None)))"

definition get_game_status :: "board \<Rightarrow> py_error + GameStatus" where
  "get_game_status b =
     (case check_winner b of
        Inl e \<Rightarrow> Inl e
      | Inr winner \<Rightarrow>
          (if winner = Some Player_X then Inr WINNER_X
           else if winner = Some Player_O then Inr WINNER_O
           else (case is_draw b of
                   Inl e \<Rightarrow> Inl e
                 | Inr d \<Rightarrow> Inr (if d then DRAW else IN_PROGRESS))))"

text \<open>
  \<^verbatim>\<open>play_move\<close> returns the pair \<^verbatim>\<open>(board, error_message)\<close>; the message is
  \<^verbatim>\<open>None\<close> on success. The read \<^verbatim>\<open>board[row][col]\<close> can raise on a board that is
  not 3 by 3. The copy \<^verbatim>\<open>[r.copy() for r in board]\<close> followed by the assignment to
  \<^verbatim>\<open>next_board[row][col]\<close> is, as a value, the board with that one cell replaced.
\<close>

definition play_move ::
  "board \<Rightarrow> int \<Rightarrow> int \<Rightarrow> Player \<Rightarrow> py_error + (board \<times> move_error option)" where
  "play_move b row col player =
     (if row < 0 \<or> row > 2 \<or> col < 0 \<or> col > 2 then Inr (b, Some OutOfBounds)
      else (case get_cell b (nat row) (nat col) of
              Inl e \<Rightarrow> Inl e
            | Inr c \<Rightarrow>
                (if c \<noteq> None then Inr (b, Some CellOccupied)
                 else (let expected_player = get_next_player b in
                       if player \<noteq> expected_player
                       then Inr (b, Some (WrongTurn expected_player))
                       else Inr (b[nat row := (b ! nat row)[nat col := Some player]],
                                 None)))))"

text \<open>A board of the shape the data model fixes: three rows of three cells.\<close>

definition is_3x3 :: "board \<Rightarrow> bool" where
  "is_3x3 b \<longleftrightarrow> length b = 3 \<and> list_all (\<lambda>r. length r = 3) b"

subsection \<open>Reachable boards\<close>

text \<open>
  The boards produced from \<^verbatim>\<open>initial_board()\<close> by successful calls of
  \<^verbatim>\<open>play_move\<close> (calls whose error message is \<^verbatim>\<open>None\<close>).
\<close>

inductive reachable :: "board \<Rightarrow> bool" where
  start: "reachable initial_board"
| move: "reachable b \<Longrightarrow> play_move b row col player = Inr (b', None) \<Longrightarrow> reachable b'"

subsection \<open>The specification's reading of a winning line\<close>

text \<open>
  Written from the specification's words, to be compared with \<^const>\<open>check_winner\<close>:
  the eight lines in the order rows 0 to 2, columns 0 to 2, main diagonal, anti-diagonal;
  a line matches when its cells are non-empty and identical; the winner is the mark of
  the first matching line.
\<close>

definition cell_at :: "board \<Rightarrow> nat \<times> nat \<Rightarrow> cell" where
  "cell_at b p = b ! fst p ! snd p"

definition spec_lines :: "(nat \<times> nat) list list" where
  "spec_lines =
     [[(0, 0), (0, 1), (0, 2)], [(1, 0), (1, 1), (1, 2)], [(2, 0), (2, 1), (2, 2)],
      [(0, 0), (1, 0), (2, 0)], [(0, 1), (1, 1), (2, 1)], [(0, 2), (1, 2), (2, 2)],
      [(0, 0), (1, 1), (2, 2)], [(0, 2), (1, 1), (2, 0)]]"

definition winning_line :: "board \<Rightarrow> (nat \<times> nat) list \<Rightarrow> bool" where
  "winning_line b l \<longleftrightarrow>
     list_all (\<lambda>p. cell_at b p \<noteq> None \<and> cell_at b p = cell_at b (hd l)) l"

definition spec_winner :: "board \<Rightarrow> Player option" where
  "spec_winner b =
     (case find (winning_line b) spec_lines of
        None \<Rightarrow> None
      | Some l \<Rightarrow> cell_at b (hd l))"

subsection \<open>Concrete boards\<close>

definition board_after_x00 :: board where
  "board_after_x00 = [[Some Player_X, None, None], [None, None, None], [None, None, None]]"

definition board_two_lines :: board where
  "board_two_lines =
     [[Some Player_X, Some Player_O, Some Player_X],
      [Some Player_O, Some Player_O, Some Player_O],
      [Some Player_X, Some Player_X, Some Player_X]]"

definition board_full_x_wins :: board where
  "board_full_x_wins =
     [[Some Player_X, Some Player_X, Some Player_X],
      [Some Player_O, Some Player_O, Some Player_X],
      [Some Player_X, Some Player_O, Some Player_O]]"

section \<open>\<^verbatim>\<open>play_move\<close> on a store of list objects\<close>

text \<open>
  Whether \<^verbatim>\<open>play_move\<close> mutates its argument depends on which list objects the
  result shares with the input, so here the board lives in a store of list objects.
  An address is an index into the store; allocation appends. A board is the address of
  a \<open>Grid\<close>, the outer list, which holds the addresses of its rows; two entries of a
  grid may be the same row object.
\<close>

type_synonym addr = nat

datatype obj = Row "cell list" | Grid "addr list"

type_synonym heap = "obj list"

definition is_row :: "heap \<Rightarrow> addr \<Rightarrow> bool" where
  "is_row h a \<longleftrightarrow> a < length h \<and> (case h ! a of Row _ \<Rightarrow> True | Grid _ \<Rightarrow> False)"

definition cells_of :: "obj \<Rightarrow> cell list" where
  "cells_of ob = (case ob of Row cs \<Rightarrow> cs | Grid _ \<Rightarrow> [])"

text \<open>The value of the board at an address; \<open>None\<close> when the address is not a grid of rows.\<close>

definition read_board :: "heap \<Rightarrow> addr \<Rightarrow> board option" where
  "read_board h a =
     (if a < length h
      then (case h ! a of
              Row _ \<Rightarrow> None
            | Grid ras \<Rightarrow>
                (if list_all (is_row h) ras
                 then Some (map (\<lambda>ra. cells_of (h ! ra)) ras)
                 else None))
      else None)"

text \<open>\<^verbatim>\<open>[r.copy() for r in board]\<close>: every row is copied into a fresh list object.\<close>

fun copy_rows :: "heap \<Rightarrow> addr list \<Rightarrow> addr list \<times> heap" where
  "copy_rows h [] = ([], h)"
| "copy_rows h (ra # ras) =
     (let h1 = h @ [Row (cells_of (h ! ra))];
          (new_rows, h2) = copy_rows h1 ras
      in (length h # new_rows, h2))"

text \<open>
  \<^verbatim>\<open>play_move\<close> on the store. The three failure returns hand back the argument
  \<^verbatim>\<open>board\<close> itself; the success path allocates the copies and the new outer list and
  then assigns \<^verbatim>\<open>next_board[row][col] = player\<close> in place, in the copied row.
\<close>

definition play_move_h ::
  "heap \<Rightarrow> addr \<Rightarrow> int \<Rightarrow> int \<Rightarrow> Player \<Rightarrow> (py_error + addr \<times> move_error option) \<times> heap"
  where
  "play_move_h h board row col player =
     (if row < 0 \<or> row > 2 \<or> col < 0 \<or> col > 2 then (Inr (board, Some OutOfBounds), h)
      else (case read_board h board of
              None \<Rightarrow> (Inl TypeError, h)
            | Some b \<Rightarrow>
                (case get_cell b (nat row) (nat col) of
                   Inl e \<Rightarrow> (Inl e, h)
                 | Inr c \<Rightarrow>
                     (if c \<noteq> None then (Inr (board, Some CellOccupied), h)
                      else (let expected_player = get_next_player b in
                            if player \<noteq> expected_player
                            then (Inr (board, Some (WrongTurn expected_player)), h)
                            else (case h ! board of
                                    Row _ \<Rightarrow> (Inl TypeError, h)
                                  | Grid ras \<Rightarrow>
                                      (let (new_rows, h1) = copy_rows h ras;
                                           next_board = length h1;
                                           h2 = h1 @ [Grid new_rows];
                                           r = new_rows ! nat row;
                                           h3 = h2[r := Row ((cells_of (h2 ! r))
                                                              [nat col := Some player])]
                                       in (Inr (next_board, None), h3))))))))"

text \<open>The store after a successful move, in closed form (used in the proofs).\<close>

definition heap_after_move :: "heap \<Rightarrow> board \<Rightarrow> nat \<Rightarrow> nat \<Rightarrow> Player \<Rightarrow> heap" where
  "heap_after_move h b i j p =
     (h @ map Row b @ [Grid [length h..<length h + length b]])
       [length h + i := Row ((b ! i)[j := Some p])]"

text \<open>A board built as \<^verbatim>\<open>[[None] * 3] * 3\<close>: one row object, referenced three times.\<close>

definition heap_shared_row :: heap where
  "heap_shared_row = [Row [None, None, None], Grid [0, 0, 0]]"

section \<open>Storage and service\<close>

subsection \<open>Storage (\<^verbatim>\<open>src/api/database.py\<close>)\<close>

text \<open>
  The table \<^verbatim>\<open>games\<close> is the list of its rows in insertion order. The columns
  \<^verbatim>\<open>moves\<close> and \<^verbatim>\<open>board\<close> hold JSON text that \<^verbatim>\<open>get_game\<close> decodes again; the
  model keeps the decoded values. Timestamps are the ISO-8601 strings the service
  exchanges, and the clock reading of a call is passed in as \<open>now\<close>. The dictionary
  \<^verbatim>\<open>get_game\<close> returns has the fields of the row, so it is the same record. The
  database is the one \<^verbatim>\<open>DB_URL\<close> names by default, SQLite.
\<close>

type_synonym timestamp = string

record Move =
  m_player :: Player
  m_row :: int
  m_col :: int

record Game =
  g_id :: int
  g_moves :: "Move list"
  g_board :: board
  g_status :: GameStatus
  g_winner :: "Player option"
  g_created_at :: "timestamp option"
  g_finished_at :: "timestamp option"

type_synonym games_table = "Game list"

text \<open>
  The key of a new row. \<^verbatim>\<open>id\<close> is an integer primary key without an explicit value,
  for which the database hands out one more than the largest key in the table
  (1 for the empty table): keys grow in creation order.
\<close>

definition next_rowid :: "games_table \<Rightarrow> int" where
  "next_rowid db = fold max (map g_id db) 0 + 1"

definition create_game ::
  "timestamp \<Rightarrow> games_table \<Rightarrow> Move list \<Rightarrow> board \<Rightarrow> GameStatus \<Rightarrow> Player option \<Rightarrow>
   int \<times> games_table" where
  "create_game now db moves board status winner =
     (let game = \<lparr>g_id = next_rowid db, g_moves = moves, g_board = board,
                  g_status = status, g_winner = winner,
                  g_created_at = Some now, g_finished_at = None\<rparr>
      in (g_id game, db @ [game]))"

definition get_game :: "games_table \<Rightarrow> int \<Rightarrow> Game option" where
  "get_game db game_id = find (\<lambda>g. g_id g = game_id) db"

text \<open>
  \<^verbatim>\<open>update_game\<close> raises \<^verbatim>\<open>ValueError\<close> when the row is missing. When
  \<^verbatim>\<open>finished_at\<close> is truthy (a non-empty string) it is assigned to the column
  \<^verbatim>\<open>finished_at = Column(DateTime(timezone=True))\<close>. That column takes datetime
  objects only: binding the string fails inside \<^verbatim>\<open>db.commit()\<close> with a
  \<^verbatim>\<open>StatementError\<close>, the session is closed and no field of the row is written.
\<close>

definition update_game ::
  "games_table \<Rightarrow> int \<Rightarrow> Move list \<Rightarrow> board \<Rightarrow> GameStatus \<Rightarrow> Player option \<Rightarrow>
   timestamp option \<Rightarrow> py_error + games_table" where
  "update_game db game_id moves board status winner finished_at =
     (case find (\<lambda>g. g_id g = game_id) db of
        None \<Rightarrow> Inl ValueError
      | Some _ \<Rightarrow>
          (if (case finished_at of None \<Rightarrow> False | Some t \<Rightarrow> t \<noteq> [])
           then Inl StatementError
           else Inr (map (\<lambda>game.
                      if g_id game = game_id
                      then game\<lparr>g_moves := moves, g_board := board, g_status := status,
                                g_winner := winner\<rparr>
                      else game) db)))"

text \<open>
  \<^verbatim>\<open>order_by(Game.id.desc()).limit(limit).offset(offset)\<close> with the caller's
  integers bound as the parameters of \<^verbatim>\<open>LIMIT ? OFFSET ?\<close>. Nothing validates them.
  An integer outside the signed 64-bit range cannot be bound and raises
  \<^verbatim>\<open>OverflowError\<close>; a negative \<^verbatim>\<open>LIMIT\<close> puts no bound on the number of rows, and
  a negative \<^verbatim>\<open>OFFSET\<close> skips none.
\<close>

definition sqlite_integer :: "int \<Rightarrow> bool" where
  "sqlite_integer n \<longleftrightarrow> - (2 ^ 63) \<le> n \<and> n < 2 ^ 63"

definition list_games :: "games_table \<Rightarrow> int \<Rightarrow> int \<Rightarrow> py_error + Game list" where
  "list_games db limit offset =
     (if \<not> sqlite_integer limit \<or> \<not> sqlite_integer offset then Inl OverflowError
      else (let ordered = rev (sort_key g_id db);
                skipped = (if offset < 0 then ordered else drop (nat offset) ordered)
            in Inr (if limit < 0 then skipped else take (nat limit) skipped)))"

subsection \<open>Endpoints (\<^verbatim>\<open>src/api/main.py\<close>)\<close>

text \<open>
  The failures of an endpoint: \<^verbatim>\<open>HTTPException(404, "Game not found")\<close>,
  \<^verbatim>\<open>HTTPException(400, "Game is already finished.")\<close>,
  \<^verbatim>\<open>HTTPException(400, detail=error)\<close> with the message of \<^verbatim>\<open>play_move\<close>, and an
  exception nobody catches.
\<close>

datatype http_error =
    NotFound
  | GameFinished
  | MoveRejected move_error
  | ServerError py_error

record GameCreateRequest =
  first_player :: "Player option"

record GameMoveRequest =
  rq_player :: Player
  rq_row :: int
  rq_col :: int

record GameStatusResponse =
  rs_id :: int
  rs_board :: board
  rs_moves :: "Move list"
  rs_status :: GameStatus
  rs_winner :: "Player option"
  rs_created_at :: "timestamp option"
  rs_finished_at :: "timestamp option"

record GameHistoryItem =
  hi_id :: int
  hi_status :: GameStatus
  hi_winner :: "Player option"
  hi_created_at :: "timestamp option"
  hi_finished_at :: "timestamp option"

definition status_response :: "Game \<Rightarrow> GameStatusResponse" where
  "status_response game =
     \<lparr>rs_id = g_id game, rs_board = g_board game, rs_moves = g_moves game,
      rs_status = g_status game, rs_winner = g_winner game,
      rs_created_at = g_created_at game, rs_finished_at = g_finished_at game\<rparr>"

definition history_item :: "Game \<Rightarrow> GameHistoryItem" where
  "history_item g =
     \<lparr>hi_id = g_id g, hi_status = g_status g, hi_winner = g_winner g,
      hi_created_at = g_created_at g, hi_finished_at = g_finished_at g\<rparr>"

definition start_game ::
  "timestamp \<Rightarrow> games_table \<Rightarrow> GameCreateRequest \<Rightarrow>
   (http_error + GameStatusResponse) \<times> games_table" where
  "start_game now db req =
     (let board = initial_board; moves = [] in
      case get_game_status board of
        Inl e \<Rightarrow> (Inl (ServerError e), db)
      | Inr status \<Rightarrow>
          (let (game_id, db') = create_game now db moves board status None in
           case get_game db' game_id of
             None \<Rightarrow> (Inl (ServerError TypeError), db')
           | Some game \<Rightarrow> (Inr (status_response game), db')))"

text \<open>\<^verbatim>\<open>status in [GameStatus.WINNER_X, GameStatus.WINNER_O, GameStatus.DRAW]\<close>\<close>

definition finished :: "GameStatus \<Rightarrow> bool" where
  "finished status \<longleftrightarrow> status \<in> set [WINNER_X, WINNER_O, DRAW]"

definition make_move ::
  "timestamp \<Rightarrow> games_table \<Rightarrow> int \<Rightarrow> GameMoveRequest \<Rightarrow>
   (http_error + GameStatusResponse) \<times> games_table" where
  "make_move now db game_id req =
     (case get_game db game_id of
        None \<Rightarrow> (Inl NotFound, db)
      | Some game \<Rightarrow>
          (if finished (g_status game) then (Inl GameFinished, db)
           else
             (case play_move (g_board game) (rq_row req) (rq_col req) (rq_player req) of
                Inl e \<Rightarrow> (Inl (ServerError e), db)
              | Inr (updated_board, Some error) \<Rightarrow> (Inl (MoveRejected error), db)
              | Inr (updated_board, None) \<Rightarrow>
                  (let moves = g_moves game @
                         [\<lparr>m_player = rq_player req, m_row = rq_row req, m_col = rq_col req\<rparr>]
                   in
                   case get_game_status updated_board of
                     Inl e \<Rightarrow> (Inl (ServerError e), db)
                   | Inr new_status \<Rightarrow>
                       (let new_winner =
                              (if new_status = WINNER_X then Some Player_X
                               else if new_status = WINNER_O then Some Player_O
                               else None);
                            finished_timestamp =
                              (if finished new_status then Some now else None)
                        in
                        case update_game db game_id moves updated_board new_status
                               new_winner finished_timestamp of
                          Inl e \<Rightarrow> (Inl (ServerError e), db)
                        | Inr db' \<Rightarrow>
                            (case get_game db' game_id of
                               None \<Rightarrow> (Inl (ServerError TypeError), db')
                             | Some game' \<Rightarrow> (Inr (status_response game'), db')))))))"

definition list_game_history ::
  "games_table \<Rightarrow> int \<Rightarrow> int \<Rightarrow> py_error + GameHistoryItem list" where
  "list_game_history db limit offset =
     (case list_games db limit offset of
        Inl e \<Rightarrow> Inl e
      | Inr games \<Rightarrow> Inr (map history_item games))"


text \<open>
  The tables the service can hold: built from the empty table by \<^verbatim>\<open>start_game\<close> and
  \<^verbatim>\<open>make_move\<close> requests.
\<close>

inductive stored :: "games_table \<Rightarrow> bool" where
  empty: "stored []"
| started: "stored db \<Longrightarrow> start_game now db req = (res, db') \<Longrightarrow> stored db'"
| moved: "stored db \<Longrightarrow> make_move now db game_id req = (res, db') \<Longrightarrow> stored db'"

text \<open>A sequence of \<^verbatim>\<open>start_game\<close> requests.\<close>

fun start_games ::
  "games_table \<Rightarrow> (timestamp \<times> GameCreateRequest) list \<Rightarrow> games_table" where
  "start_games db [] = db"
| "start_games db ((now, req) # calls) = start_games (snd (start_game now db req)) calls"

text \<open>The row \<^verbatim>\<open>start_game\<close> stores, in closed form (used in the proofs).\<close>

definition new_game :: "timestamp \<Rightarrow> games_table \<Rightarrow> Game" where
  "new_game now db =
     \<lparr>g_id = next_rowid db, g_moves = [], g_board = initial_board,
      g_status = IN_PROGRESS, g_winner = None,
      g_created_at = Some now, g_finished_at = None\<rparr>"

subsection \<open>Concrete tables\<close>

text \<open>
  One game, created with \<^verbatim>\<open>first_player\<close> O, and the five requests of the winning
  sequence for X sent to it.
\<close>

definition db_new_game :: games_table where
  "db_new_game = snd (start_game ''2024-05-01T10:00:00'' [] \<lparr>first_player = Some Player_O\<rparr>)"





definition new_game_row :: Game where
  "new_game_row =
     \<lparr>g_id = 1, g_moves = [], g_board = [[None, None, None], [None, None, None], [None, None, None]],
      g_status = IN_PROGRESS, g_winner = None,
      g_created_at = Some ''2024-05-01T10:00:00'', g_finished_at = None\<rparr>"

text \<open>Five games created one after the other.\<close>

definition db_five :: games_table where
  "db_five =
     start_games []
       [(''2024-05-01T10:00:00'', \<lparr>first_player = Some Player_X\<rparr>),
        (''2024-05-01T11:00:00'', \<lparr>first_player = Some Player_O\<rparr>),
        (''2024-05-01T12:00:00'', \<lparr>first_player = None\<rparr>),
        (''2024-05-01T13:00:00'', \<lparr>first_player = Some Player_X\<rparr>),
        (''2024-05-01T14:00:00'', \<lparr>first_player = Some Player_O\<rparr>)]"

section \<open>Properties of the rules engine\<close>

subsection \<open>Auxiliary facts\<close>

lemma all_lines_explicit:
  "winner_lines @ winner_cols @ winner_diags =
     [[(0,0),(0,1),(0,2)], [(1,0),(1,1),(1,2)], [(2,0),(2,1),(2,2)],
      [(0,0),(1,0),(2,0)], [(0,1),(1,1),(2,1)], [(0,2),(1,2),(2,2)],
      [(0,0),(1,1),(2,2)], [(0,2),(1,1),(2,0)]]"
  by (simp add: winner_lines_def winner_cols_def winner_diags_def upt_rec)

lemma length_3E:
  assumes "length xs = 3"
  obtains a b c where "xs = [a, b, c]"
  using assms by (auto simp: length_Suc_conv numeral_3_eq_3)

lemma is_3x3E:
  assumes "is_3x3 b"
  obtains a1 a2 a3 b1 b2 b3 c1 c2 c3
  where "b = [[a1, a2, a3], [b1, b2, b3], [c1, c2, c3]]"
proof -
  from assms have l: "length b = 3" and rs: "list_all (\<lambda>r. length r = 3) b"
    by (simp_all add: is_3x3_def)
  from l obtain r1 r2 r3 where b: "b = [r1, r2, r3]" by (rule length_3E)
  from rs b have "length r1 = 3" "length r2 = 3" "length r3 = 3" by simp_all
  then show thesis using b that by (metis length_3E)
qed

lemma get_cell_3x3:
  "is_3x3 b \<Longrightarrow> i < 3 \<Longrightarrow> j < 3 \<Longrightarrow> get_cell b i j = Inr (b ! i ! j)"
  by (auto simp: get_cell_def is_3x3_def list_all_length)

lemma line_marks_3x3:
  "is_3x3 b \<Longrightarrow> list_all (\<lambda>p. fst p < 3 \<and> snd p < 3) l \<Longrightarrow>
   line_marks b l = Inr (map (cell_at b) l)"
  by (induction l) (auto simp: get_cell_3x3 cell_at_def)

lemma scan_lines_find:
  assumes "is_3x3 b"
    and "list_all (\<lambda>l. l \<noteq> [] \<and> list_all (\<lambda>p. fst p < 3 \<and> snd p < 3) l) ls"
  shows "scan_lines b ls =
           Inr (case find (winning_line b) ls of
                  None \<Rightarrow> None
                | Some l \<Rightarrow> cell_at b (hd l))"
  using assms(2)
proof (induction ls)
  case Nil
  then show ?case by simp
next
  case (Cons l ls)
  then obtain p ps where l: "l = p # ps" by (cases l) auto
  from Cons.prems l have lm: "line_marks b l = Inr (cell_at b p # map (cell_at b) ps)"
    using line_marks_3x3 [OF assms(1), of l] by simp
  have w: "winning_line b l \<longleftrightarrow>
             cell_at b p \<noteq> None \<and> list_all (\<lambda>c. c = cell_at b p) (cell_at b p # map (cell_at b) ps)"
    by (auto simp: winning_line_def l list_all_iff)
  show ?case
  proof (cases "winning_line b l")
    case True
    with w obtain m where m: "cell_at b p = Some m" by auto
    with True w lm show ?thesis
      by (cases m) (simp_all add: l)
  next
    case False
    from Cons have ih: "scan_lines b ls =
        Inr (case find (winning_line b) ls of None \<Rightarrow> None | Some l \<Rightarrow> cell_at b (hd l))"
      by simp
    show ?thesis
    proof (cases "cell_at b p")
      case None
      with False lm ih show ?thesis by (simp add: l)
    next
      case (Some m)
      with False w have "\<not> list_all (\<lambda>c. c = Some m) (map (cell_at b) ps)" by simp
      with False lm ih Some show ?thesis by (simp add: l)
    qed
  qed
qed

lemma check_winner_3x3: "is_3x3 b \<Longrightarrow> check_winner b = Inr (spec_winner b)"
  unfolding check_winner_def spec_winner_def all_lines_explicit spec_lines_def
  by (rule scan_lines_find) simp_all

lemma initial_board_explicit:
  "initial_board = [[None, None, None], [None, None, None], [None, None, None]]"
  by (simp add: initial_board_def upt_rec)

lemma lt3_cases: "(i::nat) < 3 \<Longrightarrow> i = 0 \<or> i = 1 \<or> i = 2"
  by arith

lemma is_3x3_update:
  "is_3x3 b \<Longrightarrow> i < 3 \<Longrightarrow> is_3x3 (b[i := (b ! i)[j := v]])"
  by (auto simp: is_3x3_def list_all_length nth_list_update)

lemma count_update:
  assumes "is_3x3 b" "i < 3" "j < 3" "b ! i ! j = None"
  shows "length (filter (\<lambda>c. c = Some q) (concat (b[i := (b ! i)[j := Some p]]))) =
           (if q = p then 1 else 0) + length (filter (\<lambda>c. c = Some q) (concat b))"
proof -
  from assms(1) obtain a1 a2 a3 b1 b2 b3 c1 c2 c3
    where b: "b = [[a1, a2, a3], [b1, b2, b3], [c1, c2, c3]]" by (rule is_3x3E)
  from assms(2) have i: "i = 0 \<or> i = 1 \<or> i = 2" by (rule lt3_cases)
  from assms(3) have j: "j = 0 \<or> j = 1 \<or> j = 2" by (rule lt3_cases)
  from i j assms(4) show ?thesis
    unfolding b by (elim disjE) simp_all
qed

lemma play_move_success:
  assumes "play_move b row col player = Inr (b', None)"
  shows "0 \<le> row \<and> row \<le> 2 \<and> 0 \<le> col \<and> col \<le> 2 \<and>
         get_cell b (nat row) (nat col) = Inr None \<and>
         player = get_next_player b \<and>
         b' = b[nat row := (b ! nat row)[nat col := Some player]]"
  using assms
  by (auto simp: play_move_def Let_def split: if_splits sum.splits)

lemma play_move_invariant:
  assumes "is_3x3 b"
    and "int (x_count b) - int (o_count b) \<in> {0, 1}"
    and "play_move b row col player = Inr (b', None)"
  shows "is_3x3 b' \<and> int (x_count b') - int (o_count b') \<in> {0, 1}"
proof -
  from assms(3) have r: "nat row < 3" and c: "nat col < 3"
    and e: "get_cell b (nat row) (nat col) = Inr None"
    and p: "player = get_next_player b"
    and b': "b' = b[nat row := (b ! nat row)[nat col := Some player]]"
    using play_move_success [OF assms(3)] by auto
  from e assms(1) r c have n: "b ! nat row ! nat col = None"
    by (simp add: get_cell_3x3)
  have x: "x_count b' = (if player = Player_X then 1 else 0) + x_count b"
    unfolding x_count_def b' using count_update [OF assms(1) r c n, of Player_X player]
    by simp
  have o: "o_count b' = (if player = Player_O then 1 else 0) + o_count b"
    unfolding o_count_def b' using count_update [OF assms(1) r c n, of Player_O player]
    by simp
  have "is_3x3 b'" unfolding b' using assms(1) r by (rule is_3x3_update)
  moreover have "int (x_count b') - int (o_count b') \<in> {0, 1}"
    using assms(2) p x o by (cases player) (auto simp: get_next_player_def split: if_splits)
  ultimately show ?thesis ..
qed

lemma list_ex_None_concat:
  "list_ex (\<lambda>c. c = None) (concat b) \<longleftrightarrow>
     \<not> list_all (\<lambda>r. list_all (\<lambda>c. c \<noteq> None) r) b"
  by (auto simp: list_ex_iff list_all_iff)

lemma is_draw_True_iff:
  "is_draw b = Inr True \<longleftrightarrow>
     list_all (\<lambda>r. list_all (\<lambda>c. c \<noteq> None) r) b \<and> check_winner b = Inr None"
  unfolding is_draw_def list_ex_None_concat
  by (cases "check_winner b") auto

lemma is_draw_after_no_winner:
  "check_winner b = Inr None \<Longrightarrow>
   is_draw b = Inr (list_all (\<lambda>r. list_all (\<lambda>c. c \<noteq> None) r) b)"
  unfolding is_draw_def list_ex_None_concat by simp

lemma get_game_status_cases:
  "get_game_status b =
     (case check_winner b of
        Inl e \<Rightarrow> Inl e
      | Inr (Some Player_X) \<Rightarrow> Inr WINNER_X
      | Inr (Some Player_O) \<Rightarrow> Inr WINNER_O
      | Inr None \<Rightarrow>
          Inr (if list_all (\<lambda>r. list_all (\<lambda>c. c \<noteq> None) r) b then DRAW else IN_PROGRESS))"
proof (cases "check_winner b")
  case (Inl e)
  then show ?thesis by (simp add: get_game_status_def)
next
  case (Inr w)
  show ?thesis
  proof (cases w)
    case None
    with Inr show ?thesis
      by (simp add: get_game_status_def is_draw_after_no_winner)
  next
    case (Some p)
    with Inr show ?thesis by (cases p) (simp_all add: get_game_status_def)
  qed
qed


lemma spec_winner_None_iff:
  "spec_winner b = None \<longleftrightarrow> \<not> list_ex (winning_line b) spec_lines"
proof (cases "find (winning_line b) spec_lines")
  case None
  then have "\<not> list_ex (winning_line b) spec_lines"
    by (simp add: find_None_iff list_ex_iff)
  with None show ?thesis by (simp add: spec_winner_def)
next
  case (Some l)
  then have w: "winning_line b l" and m: "l \<in> set spec_lines"
    by (auto simp: find_Some_iff)
  from m have "l \<noteq> []" by (auto simp: spec_lines_def)
  with w have "cell_at b (hd l) \<noteq> None"
    by (cases l) (simp_all add: winning_line_def)
  with Some w m show ?thesis
    by (auto simp: spec_winner_def list_ex_iff)
qed

subsection \<open>Move validation\<close>

text \<open>
  Claim C1. On a 3 by 3 board \<^verbatim>\<open>play_move\<close> always returns, and its error message is
  \<^verbatim>\<open>OutOfBounds\<close> exactly when the row or the column lies outside 0..2; otherwise
  \<^verbatim>\<open>CellOccupied\<close> exactly when the target cell holds a mark; otherwise
  \<^verbatim>\<open>WrongTurn\<close> (naming the expected player) exactly when the player is not the one
  \<^verbatim>\<open>get_next_player\<close> gives; otherwise there is no error. The conditions are nested
  in that order, so an occupied cell is reported before a wrong turn.
\<close>

theorem play_move_checks_in_order:
  assumes "is_3x3 b"
  shows "\<exists>b' e. play_move b row col player = Inr (b', e) \<and>
           (e = Some OutOfBounds \<longleftrightarrow> row < 0 \<or> 2 < row \<or> col < 0 \<or> 2 < col) \<and>
           (e = Some CellOccupied \<longleftrightarrow>
              0 \<le> row \<and> row \<le> 2 \<and> 0 \<le> col \<and> col \<le> 2 \<and> b ! nat row ! nat col \<noteq> None) \<and>
           (e = Some (WrongTurn (get_next_player b)) \<longleftrightarrow>
              0 \<le> row \<and> row \<le> 2 \<and> 0 \<le> col \<and> col \<le> 2 \<and> b ! nat row ! nat col = None \<and>
              player \<noteq> get_next_player b) \<and>
           (e = None \<longleftrightarrow>
              0 \<le> row \<and> row \<le> 2 \<and> 0 \<le> col \<and> col \<le> 2 \<and> b ! nat row ! nat col = None \<and>
              player = get_next_player b) \<and>
           (\<forall>q. e = Some (WrongTurn q) \<longrightarrow> q = get_next_player b)"
proof (cases "row < 0 \<or> 2 < row \<or> col < 0 \<or> 2 < col")
  case True
  then have "play_move b row col player = Inr (b, Some OutOfBounds)"
    by (simp add: play_move_def)
  with True show ?thesis by auto
next
  case False
  then have "nat row < 3" "nat col < 3" by auto
  with assms have g: "get_cell b (nat row) (nat col) = Inr (b ! nat row ! nat col)"
    by (simp add: get_cell_3x3)
  show ?thesis
  proof (cases "b ! nat row ! nat col")
    case (Some m)
    with g False have "play_move b row col player = Inr (b, Some CellOccupied)"
      by (simp add: play_move_def)
    with Some False show ?thesis by auto
  next
    case None
    show ?thesis
    proof (cases "player = get_next_player b")
      case True
      with g None False
      have "play_move b row col player =
              Inr (b[nat row := (b ! nat row)[nat col := Some player]], None)"
        by (simp add: play_move_def)
      with None True False show ?thesis by auto
    next
      case ne: False
      with g None False
      have "play_move b row col player = Inr (b, Some (WrongTurn (get_next_player b)))"
        by (simp add: play_move_def)
      with None ne False show ?thesis by auto
    qed
  qed
qed

text \<open>
  The instance of the specification: X plays (0,0) on the empty board; a second X at
  (0,0) is both on an occupied cell and out of turn, and the message is
  \<^verbatim>\<open>CellOccupied\<close>.
\<close>

theorem play_move_checks_in_order_witness:
  "is_3x3 board_after_x00 \<and>
   play_move initial_board 0 0 Player_X = Inr (board_after_x00, None) \<and>
   Player_X \<noteq> get_next_player board_after_x00 \<and>
   (\<exists>b'. play_move board_after_x00 0 0 Player_X = Inr (b', Some CellOccupied))"
proof -
  have h: "is_3x3 board_after_x00"
    by (simp add: is_3x3_def board_after_x00_def)
  have first: "play_move initial_board 0 0 Player_X = Inr (board_after_x00, None)"
    by (simp add: board_after_x00_def initial_board_explicit play_move_def get_cell_def
        get_next_player_def x_count_def o_count_def)
  have turn: "Player_X \<noteq> get_next_player board_after_x00"
    by (simp add: board_after_x00_def get_next_player_def x_count_def o_count_def)
  have occ: "board_after_x00 ! nat 0 ! nat 0 \<noteq> None"
    by (simp add: board_after_x00_def)
  from play_move_checks_in_order [OF h, of 0 0 Player_X]
  obtain b' e where r: "play_move board_after_x00 0 0 Player_X = Inr (b', e)"
    and c: "e = Some CellOccupied \<longleftrightarrow>
              (0::int) \<le> 0 \<and> (0::int) \<le> 2 \<and> (0::int) \<le> 0 \<and> (0::int) \<le> 2 \<and>
              board_after_x00 ! nat 0 ! nat 0 \<noteq> None"
    by blast
  from c occ have "e = Some CellOccupied" by simp
  with r have "\<exists>b'. play_move board_after_x00 0 0 Player_X = Inr (b', Some CellOccupied)"
    by blast
  with h first turn show ?thesis by blast
qed

subsection \<open>Winner detection\<close>

text \<open>
  Claim C3. On every 3 by 3 board, legal or not, \<^verbatim>\<open>check_winner\<close> returns without
  raising, and its result is the mark of the first line, in the order rows 0 to 2,
  columns 0 to 2, main diagonal, anti-diagonal, whose three cells are non-empty and
  identical; it is \<^verbatim>\<open>None\<close> exactly when no line matches.
\<close>

theorem check_winner_first_line:
  assumes "is_3x3 b"
  shows "check_winner b = Inr (spec_winner b) \<and>
         (check_winner b = Inr None \<longleftrightarrow> \<not> list_ex (winning_line b) spec_lines)"
proof -
  from assms have "check_winner b = Inr (spec_winner b)" by (rule check_winner_3x3)
  then show ?thesis by (simp add: spec_winner_None_iff)
qed

text \<open>
  An illegal board with three complete lines: row 0 does not match, row 1 is the first
  that does, and its mark O is returned although row 2 is complete for X.
\<close>

theorem check_winner_first_line_witness:
  "is_3x3 board_two_lines \<and> check_winner board_two_lines = Inr (Some Player_O)"
proof -
  have h: "is_3x3 board_two_lines"
    by (simp add: is_3x3_def board_two_lines_def)
  have "spec_winner board_two_lines = Some Player_O"
    by (simp add: spec_winner_def spec_lines_def winning_line_def cell_at_def
        board_two_lines_def)
  with h check_winner_first_line [OF h] show ?thesis by simp
qed

subsection \<open>Draw and status\<close>

text \<open>
  Claim C4. \<^verbatim>\<open>is_draw\<close> is true exactly when every cell is non-empty and
  \<^verbatim>\<open>check_winner\<close> finds no winner. \<^verbatim>\<open>get_game_status\<close> is \<^verbatim>\<open>WINNER_X\<close> or
  \<^verbatim>\<open>WINNER_O\<close> exactly when \<^verbatim>\<open>check_winner\<close> finds that winner, whatever the draw
  check would say; it is \<^verbatim>\<open>DRAW\<close> exactly when there is no winner and \<^verbatim>\<open>is_draw\<close>
  holds, and \<^verbatim>\<open>IN_PROGRESS\<close> exactly when there is no winner and \<^verbatim>\<open>is_draw\<close> is
  false. On a 3 by 3 board all three functions return without raising.
\<close>

theorem status_derivation:
  "(is_draw b = Inr True \<longleftrightarrow>
      list_all (\<lambda>r. list_all (\<lambda>c. c \<noteq> None) r) b \<and> check_winner b = Inr None) \<and>
   (get_game_status b = Inr WINNER_X \<longleftrightarrow> check_winner b = Inr (Some Player_X)) \<and>
   (get_game_status b = Inr WINNER_O \<longleftrightarrow> check_winner b = Inr (Some Player_O)) \<and>
   (get_game_status b = Inr DRAW \<longleftrightarrow> check_winner b = Inr None \<and> is_draw b = Inr True) \<and>
   (get_game_status b = Inr IN_PROGRESS \<longleftrightarrow>
      check_winner b = Inr None \<and> is_draw b = Inr False) \<and>
   (is_3x3 b \<longrightarrow> (\<exists>w d s. check_winner b = Inr w \<and> is_draw b = Inr d \<and>
                           get_game_status b = Inr s))"
proof (intro conjI impI)
  show "is_draw b = Inr True \<longleftrightarrow>
      list_all (\<lambda>r. list_all (\<lambda>c. c \<noteq> None) r) b \<and> check_winner b = Inr None"
    by (rule is_draw_True_iff)
next
  show "get_game_status b = Inr WINNER_X \<longleftrightarrow> check_winner b = Inr (Some Player_X)"
    unfolding get_game_status_cases
    by (simp split: sum.split option.split Player.split)
next
  show "get_game_status b = Inr WINNER_O \<longleftrightarrow> check_winner b = Inr (Some Player_O)"
    unfolding get_game_status_cases
    by (simp split: sum.split option.split Player.split)
next
  show "get_game_status b = Inr DRAW \<longleftrightarrow> check_winner b = Inr None \<and> is_draw b = Inr True"
    unfolding get_game_status_cases is_draw_True_iff
    by (simp split: sum.split option.split Player.split)
next
  show "get_game_status b = Inr IN_PROGRESS \<longleftrightarrow>
      check_winner b = Inr None \<and> is_draw b = Inr False"
  proof (cases "check_winner b = Inr None")
    case True
    then show ?thesis
      by (simp add: get_game_status_cases is_draw_after_no_winner)
  next
    case False
    then show ?thesis
      unfolding get_game_status_cases
      by (simp split: sum.split option.split Player.split)
  qed
next
  assume "is_3x3 b"
  then have w: "check_winner b = Inr (spec_winner b)" by (rule check_winner_3x3)
  then show "\<exists>w d s. check_winner b = Inr w \<and> is_draw b = Inr d \<and> get_game_status b = Inr s"
    by (auto simp: is_draw_def get_game_status_cases split: option.split Player.split)
qed

text \<open>A full board with a complete row for X: the status is the winner, not a draw.\<close>

theorem status_derivation_witness:
  "is_3x3 board_full_x_wins \<and>
   list_all (\<lambda>r. list_all (\<lambda>c. c \<noteq> None) r) board_full_x_wins \<and>
   get_game_status board_full_x_wins = Inr WINNER_X \<and>
   is_draw board_full_x_wins \<noteq> Inr True"
proof -
  have h: "is_3x3 board_full_x_wins"
    by (simp add: is_3x3_def board_full_x_wins_def)
  have f: "list_all (\<lambda>r. list_all (\<lambda>c. c \<noteq> None) r) board_full_x_wins"
    by (simp add: board_full_x_wins_def)
  have "spec_winner board_full_x_wins = Some Player_X"
    by (simp add: spec_winner_def spec_lines_def winning_line_def cell_at_def
        board_full_x_wins_def)
  then have w: "check_winner board_full_x_wins = Inr (Some Player_X)"
    using check_winner_3x3 [OF h] by simp
  from status_derivation [of board_full_x_wins] w
  have "get_game_status board_full_x_wins = Inr WINNER_X"
    and "is_draw board_full_x_wins \<noteq> Inr True"
    by simp_all
  with h f show ?thesis by simp
qed

subsection \<open>Turn order\<close>

text \<open>
  Claim C5. Every board reached from \<^verbatim>\<open>initial_board()\<close> by successful
  \<^verbatim>\<open>play_move\<close> calls is a 3 by 3 grid on which the number of X marks minus the
  number of O marks is 0 or 1.
\<close>

theorem turn_order_invariant:
  "reachable b \<Longrightarrow> is_3x3 b \<and> int (x_count b) - int (o_count b) \<in> {0, 1}"
proof (induction rule: reachable.induct)
  case start
  show ?case
    by (simp add: initial_board_explicit is_3x3_def x_count_def o_count_def)
next
  case (move b row col player b')
  then show ?case using play_move_invariant by blast
qed

theorem turn_order_invariant_witness:
  "reachable board_after_x00 \<and> is_3x3 board_after_x00 \<and>
   int (x_count board_after_x00) - int (o_count board_after_x00) = 1"
proof -
  have "play_move initial_board 0 0 Player_X = Inr (board_after_x00, None)"
    by (simp add: board_after_x00_def initial_board_explicit play_move_def get_cell_def
        get_next_player_def x_count_def o_count_def)
  with reachable.start have r: "reachable board_after_x00" by (rule reachable.move)
  have "int (x_count board_after_x00) - int (o_count board_after_x00) = 1"
    by (simp add: board_after_x00_def x_count_def o_count_def)
  with r turn_order_invariant [OF r] show ?thesis by simp
qed

subsection \<open>Two complete games\<close>

text \<open>The unfoldings that evaluate the engine on a concrete board.\<close>

lemmas play_eval = play_move_def get_cell_def get_next_player_def x_count_def o_count_def

lemmas status_eval = get_game_status_def is_draw_def check_winner_def all_lines_explicit
  get_cell_def


text \<open>
  Claim C7. From the empty board the five calls X (0,0), O (1,0), X (0,1), O (1,1),
  X (0,2) of \<^verbatim>\<open>play_move\<close> all succeed, \<^verbatim>\<open>get_game_status\<close> of the last board is
  \<^verbatim>\<open>WINNER_X\<close>, and its row 0 is X, X, X.
\<close>

theorem x_winning_sequence:
  "\<exists>b1 b2 b3 b4 b5.
     play_move initial_board 0 0 Player_X = Inr (b1, None) \<and>
     play_move b1 1 0 Player_O = Inr (b2, None) \<and>
     play_move b2 0 1 Player_X = Inr (b3, None) \<and>
     play_move b3 1 1 Player_O = Inr (b4, None) \<and>
     play_move b4 0 2 Player_X = Inr (b5, None) \<and>
     get_game_status b5 = Inr WINNER_X \<and>
     b5 ! 0 = [Some Player_X, Some Player_X, Some Player_X]"
proof -
  define b1 :: board where "b1 = [[Some Player_X, None, None], [None, None, None], [None, None, None]]"
  define b2 :: board where "b2 = [[Some Player_X, None, None], [Some Player_O, None, None], [None, None, None]]"
  define b3 :: board where "b3 = [[Some Player_X, Some Player_X, None], [Some Player_O, None, None], [None, None, None]]"
  define b4 :: board where "b4 = [[Some Player_X, Some Player_X, None], [Some Player_O, Some Player_O, None], [None, None, None]]"
  define b5 :: board where "b5 = [[Some Player_X, Some Player_X, Some Player_X], [Some Player_O, Some Player_O, None], [None, None, None]]"
  have 1: "play_move initial_board 0 0 Player_X = Inr (b1, None)"
    by (simp add: initial_board_explicit b1_def play_eval)
  have 2: "play_move b1 1 0 Player_O = Inr (b2, None)"
    by (simp add: b1_def b2_def play_eval)
  have 3: "play_move b2 0 1 Player_X = Inr (b3, None)"
    by (simp add: b2_def b3_def play_eval)
  have 4: "play_move b3 1 1 Player_O = Inr (b4, None)"
    by (simp add: b3_def b4_def play_eval)
  have 5: "play_move b4 0 2 Player_X = Inr (b5, None)"
    by (simp add: b4_def b5_def play_eval)
  have 6: "get_game_status b5 = Inr WINNER_X"
    by (simp add: b5_def status_eval)
  have 7: "b5 ! 0 = [Some Player_X, Some Player_X, Some Player_X]"
    by (simp add: b5_def)
  from 1 2 3 4 5 6 7 show ?thesis by blast
qed

text \<open>
  Claim C8. From the empty board the nine calls X (0,0), O (0,1), X (0,2), O (1,1),
  X (1,0), O (1,2), X (2,1), O (2,0), X (2,2) of \<^verbatim>\<open>play_move\<close> all succeed, and the
  last board has status \<^verbatim>\<open>DRAW\<close> with \<^verbatim>\<open>check_winner\<close> returning \<^verbatim>\<open>None\<close>.
\<close>

theorem draw_sequence:
  "\<exists>b1 b2 b3 b4 b5 b6 b7 b8 b9.
     play_move initial_board 0 0 Player_X = Inr (b1, None) \<and>
     play_move b1 0 1 Player_O = Inr (b2, None) \<and>
     play_move b2 0 2 Player_X = Inr (b3, None) \<and>
     play_move b3 1 1 Player_O = Inr (b4, None) \<and>
     play_move b4 1 0 Player_X = Inr (b5, None) \<and>
     play_move b5 1 2 Player_O = Inr (b6, None) \<and>
     play_move b6 2 1 Player_X = Inr (b7, None) \<and>
     play_move b7 2 0 Player_O = Inr (b8, None) \<and>
     play_move b8 2 2 Player_X = Inr (b9, None) \<and>
     get_game_status b9 = Inr DRAW \<and>
     check_winner b9 = Inr None"
proof -
  define b1 :: board where "b1 = [[Some Player_X, None, None], [None, None, None], [None, None, None]]"
  define b2 :: board where "b2 = [[Some Player_X, Some Player_O, None], [None, None, None], [None, None, None]]"
  define b3 :: board where "b3 = [[Some Player_X, Some Player_O, Some Player_X], [None, None, None], [None, None, None]]"
  define b4 :: board where "b4 = [[Some Player_X, Some Player_O, Some Player_X], [None, Some Player_O, None], [None, None, None]]"
  define b5 :: board where "b5 = [[Some Player_X, Some Player_O, Some Player_X], [Some Player_X, Some Player_O, None], [None, None, None]]"
  define b6 :: board where "b6 = [[Some Player_X, Some Player_O, Some Player_X], [Some Player_X, Some Player_O, Some Player_O], [None, None, None]]"
  define b7 :: board where "b7 = [[Some Player_X, Some Player_O, Some Player_X], [Some Player_X, Some Player_O, Some Player_O], [None, Some Player_X, None]]"
  define b8 :: board where "b8 = [[Some Player_X, Some Player_O, Some Player_X], [Some Player_X, Some Player_O, Some Player_O], [Some Player_O, Some Player_X, None]]"
  define b9 :: board where "b9 = [[Some Player_X, Some Player_O, Some Player_X], [Some Player_X, Some Player_O, Some Player_O], [Some Player_O, Some Player_X, Some Player_X]]"
  have 1: "play_move initial_board 0 0 Player_X = Inr (b1, None)"
    by (simp add: initial_board_explicit b1_def play_eval)
  have 2: "play_move b1 0 1 Player_O = Inr (b2, None)"
    by (simp add: b1_def b2_def play_eval)
  have 3: "play_move b2 0 2 Player_X = Inr (b3, None)"
    by (simp add: b2_def b3_def play_eval)
  have 4: "play_move b3 1 1 Player_O = Inr (b4, None)"
    by (simp add: b3_def b4_def play_eval)
  have 5: "play_move b4 1 0 Player_X = Inr (b5, None)"
    by (simp add: b4_def b5_def play_eval)
  have 6: "play_move b5 1 2 Player_O = Inr (b6, None)"
    by (simp add: b5_def b6_def play_eval)
  have 7: "play_move b6 2 1 Player_X = Inr (b7, None)"
    by (simp add: b6_def b7_def play_eval)
  have 8: "play_move b7 2 0 Player_O = Inr (b8, None)"
    by (simp add: b7_def b8_def play_eval)
  have 9: "play_move b8 2 2 Player_X = Inr (b9, None)"
    by (simp add: b8_def b9_def play_eval)
  have 10: "check_winner b9 = Inr None"
    by (simp add: b9_def check_winner_def all_lines_explicit get_cell_def)
  have 11: "get_game_status b9 = Inr DRAW"
    by (simp add: b9_def status_eval)
  from 1 2 3 4 5 6 7 8 9 10 11 show ?thesis by blast
qed

section \<open>Properties of \<^verbatim>\<open>play_move\<close> on the store\<close>

lemma copy_rows_eq:
  "list_all (\<lambda>ra. ra < length h) ras \<Longrightarrow>
   copy_rows h ras =
     ([length h..<length h + length ras], h @ map (\<lambda>ra. Row (cells_of (h ! ra))) ras)"
proof (induction ras arbitrary: h)
  case Nil
  then show ?case by simp
next
  case (Cons ra ras)
  let ?h1 = "h @ [Row (cells_of (h ! ra))]"
  from Cons.prems have ra: "ra < length h" and rest: "list_all (\<lambda>ra. ra < length h) ras"
    by simp_all
  from rest have "list_all (\<lambda>ra. ra < length ?h1) ras"
    by (auto simp: list_all_iff)
  then have ih: "copy_rows ?h1 ras =
      ([length ?h1..<length ?h1 + length ras], ?h1 @ map (\<lambda>ra. Row (cells_of (?h1 ! ra))) ras)"
    by (rule Cons.IH)
  have m: "map (\<lambda>ra. Row (cells_of (?h1 ! ra))) ras = map (\<lambda>ra. Row (cells_of (h ! ra))) ras"
    using rest by (auto simp: list_all_iff nth_append)
  show ?case
    by (simp add: ih m Let_def upt_conv_Cons del: upt_Suc)
qed

lemma is_row_append: "is_row h a \<Longrightarrow> is_row (h @ xs) a"
  by (auto simp: is_row_def nth_append)

lemma read_board_append:
  assumes "read_board h a = Some b"
  shows "read_board (h @ xs) a = Some b"
proof -
  from assms have a: "a < length h"
    by (simp add: read_board_def split: if_splits)
  with assms obtain ras where g: "h ! a = Grid ras" and rows: "list_all (is_row h) ras"
    and b: "b = map (\<lambda>ra. cells_of (h ! ra)) ras"
    by (auto simp: read_board_def split: obj.splits if_splits)
  from rows have rows': "list_all (is_row (h @ xs)) ras"
    by (auto simp: list_all_iff is_row_append)
  from rows have "map (\<lambda>ra. cells_of ((h @ xs) ! ra)) ras = map (\<lambda>ra. cells_of (h ! ra)) ras"
    by (auto simp: list_all_iff is_row_def nth_append)
  with a g rows' b show ?thesis
    by (simp add: read_board_def nth_append)
qed

lemma read_boardD:
  assumes "read_board h a = Some b"
  obtains ras where "a < length h" "h ! a = Grid ras" "list_all (is_row h) ras"
    "b = map (\<lambda>ra. cells_of (h ! ra)) ras"
  using assms by (auto simp: read_board_def split: obj.splits if_splits)

lemma play_move_h_refines:
  assumes rb: "read_board h a = Some b"
  shows "play_move_h h a row col player =
           (case play_move b row col player of
              Inl e \<Rightarrow> (Inl e, h)
            | Inr (b', Some err) \<Rightarrow> (Inr (a, Some err), h)
            | Inr (b', None) \<Rightarrow>
                (Inr (length h + length b, None),
                 heap_after_move h b (nat row) (nat col) player))"
proof (cases "row < 0 \<or> row > 2 \<or> col < 0 \<or> col > 2")
  case True
  then show ?thesis by (simp add: play_move_h_def play_move_def)
next
  case inb: False
  from rb obtain ras where a: "a < length h" and g: "h ! a = Grid ras"
    and rows: "list_all (is_row h) ras" and b: "b = map (\<lambda>ra. cells_of (h ! ra)) ras"
    by (rule read_boardD)
  show ?thesis
  proof (cases "get_cell b (nat row) (nat col)")
    case (Inl e)
    with inb rb show ?thesis by (simp add: play_move_h_def play_move_def)
  next
    case (Inr c)
    show ?thesis
    proof (cases "c \<noteq> None \<or> player \<noteq> get_next_player b")
      case True
      with inb rb Inr show ?thesis
        by (auto simp: play_move_h_def play_move_def Let_def)
    next
      case False
      from Inr have i: "nat row < length b"
        by (simp add: get_cell_def split: if_splits)
      from rows have lt: "list_all (\<lambda>ra. ra < length h) ras"
        by (auto simp: list_all_iff is_row_def)
      have rowsb: "map (\<lambda>ra. Row (cells_of (h ! ra))) ras = map Row b"
        by (simp add: b)
      have len: "length ras = length b" by (simp add: b)
      have cp: "copy_rows h ras = ([length h..<length h + length b], h @ map Row b)"
        using copy_rows_eq [OF lt] by (simp add: rowsb len)
      from False inb rb Inr g i show ?thesis
        by (simp add: play_move_h_def play_move_def Let_def cp heap_after_move_def
            nth_append cells_of_def)
    qed
  qed
qed

lemma heap_after_move_append:
  "heap_after_move h b i j p =
     h @ (map Row b @ [Grid [length h..<length h + length b]])[i := Row ((b ! i)[j := Some p])]"
  by (simp add: heap_after_move_def list_update_append)

lemma heap_after_move_frame:
  "x < length h \<Longrightarrow> heap_after_move h b i j p ! x = h ! x"
  by (simp add: heap_after_move_append nth_append)

lemma heap_after_move_length:
  "length (heap_after_move h b i j p) = length h + length b + 1"
  by (simp add: heap_after_move_def)

lemma heap_after_move_new_row:
  assumes "k < length b"
  shows "heap_after_move h b i j p ! (length h + k) =
           Row (if k = i then (b ! i)[j := Some p] else b ! k)"
  using assms
  by (auto simp: heap_after_move_append nth_append nth_list_update)

lemma heap_after_move_new_grid:
  assumes "i < length b"
  shows "heap_after_move h b i j p ! (length h + length b) =
           Grid [length h..<length h + length b]"
  using assms
  by (simp add: heap_after_move_append nth_append nth_list_update)

lemma read_board_new:
  assumes i: "i < length b"
  shows "read_board (heap_after_move h b i j p) (length h + length b) =
           Some (b[i := (b ! i)[j := Some p]])"
proof -
  let ?h = "heap_after_move h b i j p"
  have rows: "list_all (is_row ?h) [length h..<length h + length b]"
  proof -
    have "is_row ?h x" if "x \<in> set [length h..<length h + length b]" for x
    proof -
      from that have "x = length h + (x - length h)" and "x - length h < length b"
        by auto
      then obtain k where x: "x = length h + k" and k: "k < length b"
        by blast
      then show ?thesis
        by (simp add: is_row_def heap_after_move_length heap_after_move_new_row)
    qed
    then show ?thesis by (simp add: list_all_iff)
  qed
  have val: "map (\<lambda>ra. cells_of (?h ! ra)) [length h..<length h + length b] =
               b[i := (b ! i)[j := Some p]]"
  proof (rule nth_equalityI)
    show "length (map (\<lambda>ra. cells_of (?h ! ra)) [length h..<length h + length b]) =
            length (b[i := (b ! i)[j := Some p]])"
      by simp
  next
    fix k
    assume "k < length (map (\<lambda>ra. cells_of (?h ! ra)) [length h..<length h + length b])"
    then have k: "k < length b" by simp
    then show "map (\<lambda>ra. cells_of (?h ! ra)) [length h..<length h + length b] ! k =
                 b[i := (b ! i)[j := Some p]] ! k"
      by (simp add: heap_after_move_new_row cells_of_def nth_list_update)
  qed
  show ?thesis
    by (simp add: read_board_def heap_after_move_length heap_after_move_new_grid [OF i]
        rows val)
qed

lemma read_board_old:
  "read_board h a = Some b0 \<Longrightarrow> read_board (heap_after_move h b i j p) a = Some b0"
  unfolding heap_after_move_append by (rule read_board_append)

lemma play_move_value_success:
  assumes "play_move b row col player = Inr (b', None)"
  shows "nat row < length b \<and> nat col < length (b ! nat row) \<and>
         b' = b[nat row := (b ! nat row)[nat col := Some player]]"
  using assms
  by (auto simp: play_move_def get_cell_def Let_def split: if_splits)

lemma play_move_value_failure:
  assumes "play_move b row col player = Inr (b', Some err)"
  shows "b' = b"
  using assms
  by (auto simp: play_move_def Let_def split: if_splits sum.splits)

text \<open>
  Claim C2. \<^verbatim>\<open>play_move\<close> never mutates its input board: every object that was in
  the store before the call is unchanged after it, so the input still reads as the same
  board. On a failure the returned board is the input object itself and the store is
  unchanged. On success the returned board is a newly allocated object that has the
  input's shape, holds the player's mark at (row, col) and agrees with the input in
  every other cell. The results are those of the value-level \<^const>\<open>play_move\<close>.
\<close>

theorem play_move_no_mutation:
  assumes "read_board h a = Some b"
    and "play_move_h h a row col player = (res, h')"
  shows "(\<forall>x<length h. h' ! x = h ! x) \<and> read_board h' a = Some b \<and>
         (case res of
            Inl e \<Rightarrow> h' = h \<and> play_move b row col player = Inl e
          | Inr (a', Some err) \<Rightarrow>
              a' = a \<and> h' = h \<and> play_move b row col player = Inr (b, Some err)
          | Inr (a', None) \<Rightarrow>
              length h \<le> a' \<and>
              (\<exists>b'. read_board h' a' = Some b' \<and>
                    play_move b row col player = Inr (b', None) \<and>
                    length b' = length b \<and>
                    (\<forall>i<length b. length (b' ! i) = length (b ! i) \<and>
                       (\<forall>j<length (b ! i).
                          b' ! i ! j =
                            (if i = nat row \<and> j = nat col then Some player
                             else b ! i ! j)))))"
proof (cases "play_move b row col player")
  case (Inl e)
  with assms have "res = Inl e" "h' = h"
    using play_move_h_refines [OF assms(1), of row col player] by simp_all
  with Inl assms(1) show ?thesis by simp
next
  case (Inr r)
  obtain b' e where r: "r = (b', e)" by (cases r)
  show ?thesis
  proof (cases e)
    case (Some err)
    with Inr r assms have "res = Inr (a, Some err)" "h' = h"
      using play_move_h_refines [OF assms(1), of row col player] by simp_all
    moreover from Inr r Some have "b' = b"
      using play_move_value_failure by blast
    ultimately show ?thesis using Inr r Some assms(1) by simp
  next
    case None
    with Inr r have pm: "play_move b row col player = Inr (b', None)" by simp
    then have i: "nat row < length b"
      and b': "b' = b[nat row := (b ! nat row)[nat col := Some player]]"
      using play_move_value_success by blast+
    let ?h = "heap_after_move h b (nat row) (nat col) player"
    from pm assms have res: "res = Inr (length h + length b, None)" and h': "h' = ?h"
      using play_move_h_refines [OF assms(1), of row col player] by simp_all
    have frame: "\<forall>x<length h. h' ! x = h ! x"
      by (simp add: h' heap_after_move_frame)
    have old: "read_board h' a = Some b"
      unfolding h' using assms(1) by (rule read_board_old)
    have new: "read_board h' (length h + length b) = Some b'"
      unfolding h' b' using i by (rule read_board_new)
    have cells: "\<forall>i<length b. length (b' ! i) = length (b ! i) \<and>
                   (\<forall>j<length (b ! i).
                      b' ! i ! j =
                        (if i = nat row \<and> j = nat col then Some player else b ! i ! j))"
      using i by (auto simp: b' nth_list_update)
    have len: "length b' = length b" by (simp add: b')
    from frame old new pm cells len show ?thesis
      unfolding res by simp
  qed
qed

text \<open>
  The instance: a board whose three rows are one shared list object. The move X at
  (0,0) leaves that object and the input board as they were, and returns a new board
  in which only row 0 carries the mark.
\<close>

theorem play_move_no_mutation_witness:
  "read_board heap_shared_row 1 = Some initial_board \<and>
   (\<exists>h'. play_move_h heap_shared_row 1 0 0 Player_X = (Inr (5, None), h') \<and>
         h' ! 0 = Row [None, None, None] \<and>
         read_board h' 1 = Some initial_board \<and>
         read_board h' 5 = Some board_after_x00)"
proof -
  define h' where "h' = [Row [None, None, None], Grid [0, 0, 0],
                         Row [Some Player_X, None, None], Row [None, None, None],
                         Row [None, None, None], Grid [2, 3, 4]]"
  have rb: "read_board heap_shared_row 1 = Some initial_board"
    by (simp add: read_board_def heap_shared_row_def is_row_def cells_of_def
        initial_board_explicit)
  have run: "play_move_h heap_shared_row 1 0 0 Player_X = (Inr (5, None), h')"
    using play_move_h_refines [OF rb, of 0 0 Player_X]
    by (simp add: initial_board_explicit play_eval heap_after_move_def heap_shared_row_def
        h'_def upt_rec)
  have new: "read_board h' 5 = Some board_after_x00"
    by (simp add: read_board_def h'_def is_row_def cells_of_def board_after_x00_def)
  from play_move_no_mutation [OF rb run]
  have "h' ! 0 = heap_shared_row ! 0" and "read_board h' 1 = Some initial_board"
    by (simp_all add: heap_shared_row_def)
  then have "h' ! 0 = Row [None, None, None]" and "read_board h' 1 = Some initial_board"
    by (simp_all add: heap_shared_row_def)
  with rb run new show ?thesis by blast
qed

section \<open>Properties of the service\<close>

subsection \<open>Auxiliary facts\<close>

lemma find_map_same:
  assumes "\<And>x. x \<in> set xs \<Longrightarrow> P (f x) = P x"
  shows "find P (map f xs) = map_option f (find P xs)"
  using assms by (induction xs) auto

lemma get_game_update_same:
  assumes "update_game db game_id moves b status winner fin = Inr db'"
  shows "get_game db' game_id \<noteq> None"
proof -
  from assms obtain g where g: "find (\<lambda>g. g_id g = game_id) db = Some g"
    by (auto simp: update_game_def split: option.splits if_splits)
  let ?f = "\<lambda>game. if g_id game = game_id
                 then game\<lparr>g_moves := moves, g_board := b, g_status := status,
                           g_winner := winner\<rparr>
                 else game"
  from assms g have db': "db' = map ?f db"
    by (auto simp: update_game_def split: option.splits if_splits)
  have "find (\<lambda>g. g_id g = game_id) (map ?f db) =
          map_option ?f (find (\<lambda>g. g_id g = game_id) db)"
    by (rule find_map_same) simp
  with g db' show ?thesis by (simp add: get_game_def)
qed

lemma get_game_update_other:
  assumes "update_game db game_id moves b status winner fin = Inr db'"
    and "gid \<noteq> game_id"
  shows "get_game db' gid = get_game db gid"
proof -
  let ?f = "\<lambda>game. if g_id game = game_id
                 then game\<lparr>g_moves := moves, g_board := b, g_status := status,
                           g_winner := winner\<rparr>
                 else game"
  from assms(1) have db': "db' = map ?f db"
    by (auto simp: update_game_def split: option.splits if_splits)
  have f: "find (\<lambda>g. g_id g = gid) (map ?f db) =
          map_option ?f (find (\<lambda>g. g_id g = gid) db)"
    by (rule find_map_same) simp
  show ?thesis
  proof (cases "find (\<lambda>g. g_id g = gid) db")
    case None
    with f db' show ?thesis by (simp add: get_game_def)
  next
    case (Some g)
    then have "g_id g = gid" by (auto simp: find_Some_iff)
    with assms(2) have "?f g = g" by simp
    with f db' Some show ?thesis by (simp add: get_game_def)
  qed
qed

lemma make_move_finished:
  assumes "get_game db game_id = Some game" and "finished (g_status game)"
  shows "make_move now db game_id req = (Inl GameFinished, db)"
  using assms by (simp add: make_move_def)

lemma make_move_rejected:
  assumes "make_move now db game_id req = (Inl e, db')"
  shows "db' = db"
proof (cases "get_game db game_id")
  case None
  with assms show ?thesis by (simp add: make_move_def)
next
  case (Some game)
  show ?thesis
  proof (cases "finished (g_status game)")
    case True
    with Some assms show ?thesis by (simp add: make_move_def)
  next
    case False
    show ?thesis
    proof (cases "play_move (g_board game) (rq_row req) (rq_col req) (rq_player req)")
      case (Inl x)
      with Some False assms show ?thesis by (simp add: make_move_def)
    next
      case (Inr r)
      obtain ub err where r: "r = (ub, err)" by (cases r)
      show ?thesis
      proof (cases err)
        case (Some me)
        with \<open>get_game db game_id = Some game\<close> False Inr r assms show ?thesis
          by (simp add: make_move_def)
      next
        case None
        show ?thesis
        proof (cases "get_game_status ub")
          case (Inl x)
          with \<open>get_game db game_id = Some game\<close> False Inr r None assms show ?thesis
            by (simp add: make_move_def)
        next
          case st: (Inr new_status)
          let ?u = "update_game db game_id
                      (g_moves game @
                         [\<lparr>m_player = rq_player req, m_row = rq_row req, m_col = rq_col req\<rparr>])
                      ub new_status
                      (if new_status = WINNER_X then Some Player_X
                       else if new_status = WINNER_O then Some Player_O else None)
                      (if finished new_status then Some now else None)"
          show ?thesis
          proof (cases ?u)
            case (Inl x)
            with \<open>get_game db game_id = Some game\<close> False Inr r None st assms show ?thesis
              by (simp add: make_move_def Let_def)
          next
            case u: (Inr db2)
            then have "get_game db2 game_id \<noteq> None" by (rule get_game_update_same)
            then obtain g2 where "get_game db2 game_id = Some g2" by auto
            with \<open>get_game db game_id = Some game\<close> False Inr r None st u assms
            show ?thesis by (simp add: make_move_def Let_def)
          qed
        qed
      qed
    qed
  qed
qed

lemma make_move_success_update:
  assumes "make_move now db game_id req = (Inr r, db')"
  shows "\<exists>moves b st w f. update_game db game_id moves b st w f = Inr db'"
  using assms
  by (auto simp: make_move_def Let_def split: option.splits sum.splits if_splits prod.splits)
    blast+

lemma fold_max_ge: "(a::int) \<le> fold max xs a \<and> (\<forall>x\<in>set xs. x \<le> fold max xs a)"
proof (induction xs arbitrary: a)
  case Nil
  show ?case by simp
next
  case (Cons x xs)
  from Cons.IH [of "max x a"] show ?case by auto
qed

lemma next_rowid_fresh: "g \<in> set db \<Longrightarrow> g_id g < next_rowid db"
  using fold_max_ge [of 0 "map g_id db"] by (auto simp: next_rowid_def)

lemma find_snoc_fresh:
  assumes "\<And>x. x \<in> set xs \<Longrightarrow> \<not> P x" and "P y"
  shows "find P (xs @ [y]) = Some y"
  using assms by (induction xs) auto

lemma get_game_status_initial: "get_game_status initial_board = Inr IN_PROGRESS"
  by (simp add: initial_board_explicit status_eval)

lemma get_game_new: "get_game (db @ [new_game now db]) (next_rowid db) = Some (new_game now db)"
  unfolding get_game_def
proof (rule find_snoc_fresh)
  fix x assume "x \<in> set db"
  then show "\<not> g_id x = next_rowid db" using next_rowid_fresh by fastforce
next
  show "g_id (new_game now db) = next_rowid db" by (simp add: new_game_def)
qed

lemma start_game_eq:
  "start_game now db req =
     (Inr (status_response (new_game now db)), db @ [new_game now db])"
  using get_game_new [of db now]
  by (simp add: start_game_def get_game_status_initial create_game_def Let_def new_game_def)

lemma play_move_initial_o:
  assumes "0 \<le> row" "row \<le> 2" "0 \<le> col" "col \<le> 2"
  shows "play_move initial_board row col Player_O =
           Inr (initial_board, Some (WrongTurn Player_X))"
proof -
  have i: "is_3x3 initial_board" by (simp add: initial_board_explicit is_3x3_def)
  from assms have r: "nat row < 3" and c: "nat col < 3" by simp_all
  with i have g: "get_cell initial_board (nat row) (nat col) = Inr (initial_board ! nat row ! nat col)"
    by (simp add: get_cell_3x3)
  from r c have n: "initial_board ! nat row ! nat col = None"
    by (auto simp: initial_board_explicit dest!: lt3_cases)
  have p: "get_next_player initial_board = Player_X"
    by (simp add: initial_board_explicit get_next_player_def x_count_def o_count_def)
  from assms g n p show ?thesis by (simp add: play_move_def)
qed

lemma update_game_ids:
  assumes "update_game db game_id moves b status winner fin = Inr db'"
  shows "map g_id db' = map g_id db"
  using assms
  by (auto simp: update_game_def split: option.splits if_splits)

lemma make_move_ids:
  assumes "make_move now db game_id req = (res, db')"
  shows "map g_id db' = map g_id db"
proof (cases res)
  case (Inl e)
  with assms have "db' = db" using make_move_rejected by blast
  then show ?thesis by simp
next
  case (Inr r)
  with assms obtain moves b st w f where "update_game db game_id moves b st w f = Inr db'"
    using make_move_success_update by blast
  then show ?thesis by (rule update_game_ids)
qed

lemma stored_ids_increasing: "stored db \<Longrightarrow> sorted_wrt (<) (map g_id db)"
proof (induction rule: stored.induct)
  case empty
  show ?case by simp
next
  case (started db now req res db')
  from started.hyps(2) have "db' = db @ [new_game now db]"
    by (simp add: start_game_eq)
  moreover have "\<forall>g\<in>set db. g_id g < g_id (new_game now db)"
    using next_rowid_fresh by (simp add: new_game_def)
  ultimately show ?case using started.IH
    by (auto simp: sorted_wrt_append)
next
  case (moved db now game_id req res db')
  from moved.hyps(2) have "map g_id db' = map g_id db" by (rule make_move_ids)
  with moved.IH show ?case by simp
qed

lemma stored_start_games: "stored db \<Longrightarrow> stored (start_games db calls)"
proof (induction calls arbitrary: db)
  case Nil
  then show ?case by simp
next
  case (Cons c calls)
  obtain now req where c: "c = (now, req)" by (cases c)
  have "start_game now db req = (fst (start_game now db req), snd (start_game now db req))"
    by simp
  with Cons.prems have "stored (snd (start_game now db req))" by (rule stored.started)
  then have "stored (start_games (snd (start_game now db req)) calls)" by (rule Cons.IH)
  then show ?case by (simp add: c)
qed

lemma db_new_game_eq: "db_new_game = [new_game_row]"
  by code_simp

lemma make_move_not_found:
  "get_game db game_id = None \<Longrightarrow> make_move now db game_id req = (Inl NotFound, db)"
  by (simp add: make_move_def)

lemma make_move_engine_error:
  assumes "get_game db game_id = Some game" and "\<not> finished (g_status game)"
    and "play_move (g_board game) (rq_row req) (rq_col req) (rq_player req) = Inr (b', Some err)"
  shows "make_move now db game_id req = (Inl (MoveRejected err), db)"
  using assms by (simp add: make_move_def)

lemma finishing_move_not_stored:
  assumes "get_game db game_id = Some game" and "\<not> finished (g_status game)"
    and "play_move (g_board game) (rq_row req) (rq_col req) (rq_player req) = Inr (b', None)"
    and "get_game_status b' = Inr new_status" and "finished new_status" and "now \<noteq> []"
  shows "make_move now db game_id req = (Inl (ServerError StatementError), db)"
proof -
  from assms(1) have "find (\<lambda>g. g_id g = game_id) db = Some game"
    by (simp add: get_game_def)
  with assms(6) have "update_game db game_id moves b' new_status w (Some now) = Inl StatementError"
    for moves w
    by (simp add: update_game_def)
  with assms(1-5) show ?thesis
    by (simp add: make_move_def Let_def)
qed


lemma list_games_stored:
  assumes "stored db" and "0 \<le> limit" and "limit < 2 ^ 63" and "0 \<le> offset"
    and "offset < 2 ^ 63"
  shows "list_games db limit offset = Inr (take (nat limit) (drop (nat offset) (rev db)))"
proof -
  from assms(1) have "sorted_wrt (<) (map g_id db)" by (rule stored_ids_increasing)
  then have "sorted (map g_id db)" by (rule strict_sorted_imp_sorted)
  then have "sort_key g_id db = db" by (rule sort_key_id_if_sorted)
  moreover from assms(2-5) have "sqlite_integer limit" "sqlite_integer offset"
    by (simp_all add: sqlite_integer_def)
  ultimately show ?thesis using assms(2,4) by (simp add: list_games_def)
qed

subsection \<open>Finished games\<close>


subsection \<open>Game history\<close>

text \<open>
  Claim C9, amended. For every table the service can hold, every limit with
  \<open>0 \<le> limit < 2^63\<close> and every offset with \<open>0 \<le> offset < 2^63\<close>, the history
  endpoint returns without raising. Its items are the games by id descending, which
  is newest first, without the first \<open>offset\<close> of them and cut to at most \<open>limit\<close>;
  each item carries the id, status, winner, creation time and finish time of its game,
  and the ids of the items strictly descend. With five stored games, limit 2 and
  offset 0 give exactly two items, for the two games created last.
\<close>

theorem list_games_newest_first:
  assumes "stored db" and "0 \<le> limit" and "limit < 2 ^ 63" and "0 \<le> offset"
    and "offset < 2 ^ 63"
  shows "\<exists>items. list_game_history db limit offset = Inr items \<and>
           length items = min (nat limit) (length db - nat offset) \<and>
           map hi_id items =
             take (nat limit) (drop (nat offset) (rev (sort (map g_id db)))) \<and>
           sorted_wrt (>) (map hi_id items) \<and>
           (\<forall>k<length items.
              hi_id (items ! k) = g_id (rev db ! (nat offset + k)) \<and>
              hi_status (items ! k) = g_status (rev db ! (nat offset + k)) \<and>
              hi_winner (items ! k) = g_winner (rev db ! (nat offset + k)) \<and>
              hi_created_at (items ! k) = g_created_at (rev db ! (nat offset + k)) \<and>
              hi_finished_at (items ! k) = g_finished_at (rev db ! (nat offset + k))) \<and>
           (length db = 5 \<and> limit = 2 \<and> offset = 0 \<longrightarrow>
              length items = 2 \<and>
              hi_id (items ! 0) = g_id (db ! 4) \<and> hi_id (items ! 1) = g_id (db ! 3) \<and>
              g_id (db ! 3) < g_id (db ! 4) \<and> (\<forall>k<3. g_id (db ! k) < g_id (db ! 3)))"
proof -
  let ?rows = "take (nat limit) (drop (nat offset) (rev db))"
  let ?items = "map history_item ?rows"
  have run: "list_game_history db limit offset = Inr ?items"
    by (simp add: list_game_history_def list_games_stored [OF assms])
  have len: "length ?items = min (nat limit) (length db - nat offset)"
    by simp
  from assms(1) have inc: "sorted_wrt (<) (map g_id db)" by (rule stored_ids_increasing)
  then have "sorted (map g_id db)" by (rule strict_sorted_imp_sorted)
  then have srt: "sort (map g_id db) = map g_id db" by (rule sort_key_id_if_sorted [of "\<lambda>x. x", simplified])
  have proj: "hi_id \<circ> history_item = g_id"
    by (auto simp: history_item_def)
  have ids: "map hi_id ?items = take (nat limit) (drop (nat offset) (rev (sort (map g_id db))))"
    by (simp add: srt proj take_map drop_map rev_map)
  from inc have "sorted_wrt (>) (map g_id (rev db))"
    by (simp add: sorted_wrt_rev rev_map [symmetric])
  then have "sorted_wrt (>) (take (nat limit) (drop (nat offset) (map g_id (rev db))))"
    by simp
  then have desc: "sorted_wrt (>) (map hi_id ?items)"
    by (simp add: proj take_map drop_map)
  have fields: "\<forall>k<length ?items.
              hi_id (?items ! k) = g_id (rev db ! (nat offset + k)) \<and>
              hi_status (?items ! k) = g_status (rev db ! (nat offset + k)) \<and>
              hi_winner (?items ! k) = g_winner (rev db ! (nat offset + k)) \<and>
              hi_created_at (?items ! k) = g_created_at (rev db ! (nat offset + k)) \<and>
              hi_finished_at (?items ! k) = g_finished_at (rev db ! (nat offset + k))"
    by (auto simp: history_item_def)
  have five: "length ?items = 2 \<and>
              hi_id (?items ! 0) = g_id (db ! 4) \<and> hi_id (?items ! 1) = g_id (db ! 3) \<and>
              g_id (db ! 3) < g_id (db ! 4) \<and> (\<forall>k<3. g_id (db ! k) < g_id (db ! 3))"
    if h: "length db = 5 \<and> limit = 2 \<and> offset = 0"
  proof -
    from h obtain g1 g2 g3 g4 g5 where db: "db = [g1, g2, g3, g4, g5]"
      by (auto simp: numeral_eq_Suc length_Suc_conv)
    from inc have lt: "g_id g1 < g_id g4" "g_id g2 < g_id g4" "g_id g3 < g_id g4"
      "g_id g4 < g_id g5"
      by (simp_all add: db)
    have older: "\<forall>k<3. g_id (db ! k) < g_id (db ! 3)"
    proof (intro allI impI)
      fix k :: nat
      assume "k < 3"
      then have "k = 0 \<or> k = 1 \<or> k = 2" by arith
      with lt show "g_id (db ! k) < g_id (db ! 3)" by (auto simp: db)
    qed
    from lt h have "length ?items = 2 \<and>
              hi_id (?items ! 0) = g_id (db ! 4) \<and> hi_id (?items ! 1) = g_id (db ! 3) \<and>
              g_id (db ! 3) < g_id (db ! 4)"
      by (simp add: db history_item_def numeral_2_eq_2)
    with older show ?thesis by blast
  qed
  from run len ids desc fields five show ?thesis by blast
qed

text \<open>The instance: five games created in a row; the first page of size 2 holds games 5 and 4.\<close>

theorem list_games_newest_first_witness:
  "stored db_five \<and> length db_five = 5 \<and>
   (\<exists>items. list_game_history db_five 2 0 = Inr items \<and> map hi_id items = [5, 4])"
proof -
  have s: "stored db_five"
    unfolding db_five_def by (rule stored_start_games) (rule stored.empty)
  have l: "length db_five = 5" by code_simp
  have i: "g_id (db_five ! 4) = 5" "g_id (db_five ! 3) = 4" by code_simp+
  have b: "(0::int) \<le> 2" "(2::int) < 2 ^ 63" "(0::int) \<le> 0" "(0::int) < 2 ^ 63"
    by simp_all
  from list_games_newest_first [OF s b] l
  obtain items where run: "list_game_history db_five 2 0 = Inr items"
    and n: "length items = 2"
    and i0: "hi_id (items ! 0) = g_id (db_five ! 4)"
    and i1: "hi_id (items ! 1) = g_id (db_five ! 3)"
    by blast
  from n obtain a c where "items = [a, c]"
    by (auto simp: numeral_2_eq_2 length_Suc_conv)
  with i0 i1 i have "map hi_id items = [5, 4]" by simp
  with run have "\<exists>items. list_game_history db_five 2 0 = Inr items \<and> map hi_id items = [5, 4]"
    by simp
  with s l show ?thesis by simp
qed

text \<open>
  For every limit and offset the statement does not hold. With five stored games,
  limit \<open>-1\<close> returns all five, more than the limit, and limit \<open>2^63\<close> raises
  \<^verbatim>\<open>OverflowError\<close> instead of returning.
\<close>

theorem list_games_every_limit_counterexample:
  "map_sum id length (list_game_history db_five (- 1) 0) = Inr 5 \<and>
   map_sum id (map hi_id) (list_game_history db_five (- 1) 0) = Inr [5, 4, 3, 2, 1] \<and>
   list_game_history db_five (2 ^ 63) 0 = Inl OverflowError"
  by code_simp

subsection \<open>Creating a game\<close>

text \<open>
  Claim C10. \<^verbatim>\<open>start_game\<close> does not read its request: any two requests give the same
  response and the same table. The game it stores has the empty board, no moves,
  status \<^verbatim>\<open>IN_PROGRESS\<close> and no winner, the next player on it is X, and an opening move
  by O on any cell of the board is rejected with \<^verbatim>\<open>WrongTurn\<close>, naming X.
\<close>

theorem start_game_ignores_first_player:
  "start_game now db req1 = start_game now db req2 \<and>
   (\<exists>game. start_game now db req = (Inr (status_response game), db @ [game]) \<and>
      get_game (db @ [game]) (g_id game) = Some game \<and>
      g_board game = initial_board \<and> g_moves game = [] \<and>
      g_status game = IN_PROGRESS \<and> g_winner game = None \<and>
      get_next_player (g_board game) = Player_X \<and>
      (\<forall>now' row col. 0 \<le> row \<and> row \<le> 2 \<and> 0 \<le> col \<and> col \<le> 2 \<longrightarrow>
         make_move now' (db @ [game]) (g_id game)
           \<lparr>rq_player = Player_O, rq_row = row, rq_col = col\<rparr> =
         (Inl (MoveRejected (WrongTurn Player_X)), db @ [game])))"
proof
  show "start_game now db req1 = start_game now db req2"
    by (simp add: start_game_eq)
next
  let ?g = "new_game now db"
  have 1: "start_game now db req = (Inr (status_response ?g), db @ [?g])"
    by (rule start_game_eq)
  have 2: "get_game (db @ [?g]) (g_id ?g) = Some ?g"
    using get_game_new [of db now] by (simp add: new_game_def)
  have 3: "g_board ?g = initial_board \<and> g_moves ?g = [] \<and>
           g_status ?g = IN_PROGRESS \<and> g_winner ?g = None"
    by (simp add: new_game_def)
  have 4: "get_next_player (g_board ?g) = Player_X"
    by (simp add: new_game_def initial_board_explicit get_next_player_def x_count_def
        o_count_def)
  have 5: "make_move now' (db @ [?g]) (g_id ?g)
             \<lparr>rq_player = Player_O, rq_row = row, rq_col = col\<rparr> =
           (Inl (MoveRejected (WrongTurn Player_X)), db @ [?g])"
    if "0 \<le> row \<and> row \<le> 2 \<and> 0 \<le> col \<and> col \<le> 2" for now' row col
  proof -
    from that have "play_move (g_board ?g) row col Player_O =
                      Inr (initial_board, Some (WrongTurn Player_X))"
      by (simp add: new_game_def play_move_initial_o)
    moreover have "\<not> finished (g_status ?g)"
      by (simp add: new_game_def finished_def)
    ultimately show ?thesis using 2 by (simp add: make_move_def)
  qed
  from 1 2 3 4 5
  show "\<exists>game. start_game now db req = (Inr (status_response game), db @ [game]) \<and>
      get_game (db @ [game]) (g_id game) = Some game \<and>
      g_board game = initial_board \<and> g_moves game = [] \<and>
      g_status game = IN_PROGRESS \<and> g_winner game = None \<and>
      get_next_player (g_board game) = Player_X \<and>
      (\<forall>now' row col. 0 \<le> row \<and> row \<le> 2 \<and> 0 \<le> col \<and> col \<le> 2 \<longrightarrow>
         make_move now' (db @ [game]) (g_id game)
           \<lparr>rq_player = Player_O, rq_row = row, rq_col = col\<rparr> =
         (Inl (MoveRejected (WrongTurn Player_X)), db @ [game]))"
    by blast
qed

text \<open>
  The instance: a game requested with \<^verbatim>\<open>first_player\<close> O is the game requested with
  X, and O's opening move at (0,0) is rejected because it is X's turn.
\<close>

theorem start_game_ignores_first_player_witness:
  "start_game ''2024-05-01T10:00:00'' [] \<lparr>first_player = Some Player_X\<rparr> =
     start_game ''2024-05-01T10:00:00'' [] \<lparr>first_player = Some Player_O\<rparr> \<and>
   make_move ''2024-05-01T10:00:01'' db_new_game 1
     \<lparr>rq_player = Player_O, rq_row = 0, rq_col = 0\<rparr> =
     (Inl (MoveRejected (WrongTurn Player_X)), db_new_game)"
proof -
  let ?t = "''2024-05-01T10:00:00''"
  let ?r = "\<lparr>first_player = Some Player_O\<rparr>"
  from start_game_ignores_first_player
         [of ?t "[]" "\<lparr>first_player = Some Player_X\<rparr>" ?r ?r]
  obtain game where same: "start_game ?t [] \<lparr>first_player = Some Player_X\<rparr> = start_game ?t [] ?r"
    and st: "start_game ?t [] ?r = (Inr (status_response game), [] @ [game])"
    and rej: "\<forall>now' row col. 0 \<le> row \<and> row \<le> 2 \<and> 0 \<le> col \<and> col \<le> 2 \<longrightarrow>
         make_move now' ([] @ [game]) (g_id game)
           \<lparr>rq_player = Player_O, rq_row = row, rq_col = col\<rparr> =
         (Inl (MoveRejected (WrongTurn Player_X)), [] @ [game])"
    by blast
  from st have "db_new_game = [game]" by (simp add: db_new_game_def)
  then have game: "game = new_game_row" by (simp add: db_new_game_eq)
  have "g_id new_game_row = 1" by (simp add: new_game_row_def)
  with rej [rule_format, of 0 0 "''2024-05-01T10:00:01''"] game
  have "make_move ''2024-05-01T10:00:01'' db_new_game 1
     \<lparr>rq_player = Player_O, rq_row = 0, rq_col = 0\<rparr> =
     (Inl (MoveRejected (WrongTurn Player_X)), db_new_game)"
    by (simp add: db_new_game_eq)
  with same show ?thesis by simp
qed

end
